theory Spec2Isabelle
  imports Main "HOL-Library.AList" "HOL-Library.DAList" "HOL-Library.Char_ord"
    "HOL-Library.List_Lexorder"
begin

section \<open>Strings\<close>

text \<open>
  A string is a list of code units; the model covers code units below 256. The white space
  that \<^verbatim>\<open>String.prototype.trim\<close> and \<^verbatim>\<open>parseFloat\<close> strip is then TAB, LF, VT, FF, CR, SP
  and NBSP.
\<close>

definition isWhiteSpace :: "char \<Rightarrow> bool" where
  "isWhiteSpace c \<longleftrightarrow>
     c \<in> {CHR 0x09, CHR 0x0A, CHR 0x0B, CHR 0x0C, CHR 0x0D, CHR 0x20, CHR 0xA0}"

definition trimStart :: "string \<Rightarrow> string" where
  "trimStart s = dropWhile isWhiteSpace s"

definition trimEnd :: "string \<Rightarrow> string" where
  "trimEnd s = rev (dropWhile isWhiteSpace (rev s))"

definition trim :: "string \<Rightarrow> string" where
  "trim s = trimEnd (trimStart s)"

text \<open>
  \<^verbatim>\<open>s.split(sep)\<close> for a one-character separator: the pieces between the separators, in
  order; a string without separator (also the empty string) is its own single piece.
\<close>

fun split :: "char \<Rightarrow> string \<Rightarrow> string list" where
  "split sep [] = [[]]"
| "split sep (c # cs) =
     (if c = sep then [] # split sep cs
      else (case split sep cs of p # ps \<Rightarrow> (c # p) # ps | [] \<Rightarrow> [[c]]))"

abbreviation newline :: char where
  "newline \<equiv> CHR 0x0A"

abbreviation comma :: char where
  "comma \<equiv> CHR '',''"

section \<open>parseFloat\<close>

text \<open>
  \<^verbatim>\<open>parseFloat\<close> skips leading white space and reads the longest prefix that is a
  StrDecimalLiteral: an optional sign followed by \<^verbatim>\<open>Infinity\<close>, by digits (with optional
  fraction and exponent), or by a dot and digits. It returns NaN exactly when there is no such
  prefix, which depends on the first characters only.
\<close>

definition isDigit :: "char \<Rightarrow> bool" where
  "isDigit c \<longleftrightarrow> c \<in> set ''0123456789''"

fun startsUnsignedLiteral :: "string \<Rightarrow> bool" where
  "startsUnsignedLiteral [] = False"
| "startsUnsignedLiteral [c] = isDigit c"
| "startsUnsignedLiteral (c # d # cs) =
     (isDigit c \<or> (c = CHR ''.'' \<and> isDigit d) \<or> take 8 (c # d # cs) = ''Infinity'')"

fun dropSign :: "string \<Rightarrow> string" where
  "dropSign [] = []"
| "dropSign (c # cs) = (if c = CHR ''+'' \<or> c = CHR ''-'' then cs else c # cs)"

definition parsesToNaN :: "string \<Rightarrow> bool" where
  "parsesToNaN s \<longleftrightarrow> \<not> startsUnsignedLiteral (dropSign (trimStart s))"

text \<open>
  The value of a literal is a parameter of the model: \<open>val s\<close> is the number
  \<^verbatim>\<open>parseFloat(s)\<close> returns when that is not NaN. NaN is \<open>None\<close>.
\<close>

definition parseFloat :: "(string \<Rightarrow> 'n) \<Rightarrow> string \<Rightarrow> 'n option" where
  "parseFloat val s = (if parsesToNaN s then None else Some (val s))"

text \<open>
  The value reader for whole numbers: on an optionally signed digit string it is the integer
  \<^verbatim>\<open>parseFloat\<close> returns.
\<close>

definition digitValue :: "char \<Rightarrow> int" where
  "digitValue c = int (of_char c) - 48"

definition wholeNumber :: "string \<Rightarrow> int" where
  "wholeNumber s =
     (let t = trimStart s;
          n = foldl (\<lambda>a c. 10 * a + digitValue c) 0 (takeWhile isDigit (dropSign t))
      in if take 1 t = ''-'' then - n else n)"

section \<open>parseCsvContent\<close>

text \<open>
  The three \<^verbatim>\<open>throw new Error(...)\<close> of the parser, with the values interpolated into the
  message as fields: \<open>InvalidNumber text row\<close> is
  \<^verbatim>\<open>Invalid number "text" in row row\<close> and \<open>RowLength row n expected\<close> is
  \<^verbatim>\<open>Row row has n values but expected expected\<close>.
\<close>

datatype error =
    MissingRows
  | InvalidNumber string nat
  | RowLength nat nat nat

fun decimal :: "nat \<Rightarrow> string" where
  "decimal n =
     (if n < 10 then [''0123456789'' ! n]
      else decimal (n div 10) @ [''0123456789'' ! (n mod 10)])"

declare decimal.simps [simp del]

fun message :: "error \<Rightarrow> string" where
  "message MissingRows = ''CSV must have at least a header and one data row''"
| "message (InvalidNumber text row) =
     ''Invalid number \"'' @ text @ ''\" in row '' @ decimal row"
| "message (RowLength row n expected) =
     ''Row '' @ decimal row @ '' has '' @ decimal n @ '' values but expected '' @ decimal expected"

fun errorRow :: "error \<Rightarrow> nat option" where
  "errorRow MissingRows = None"
| "errorRow (InvalidNumber text row) = Some row"
| "errorRow (RowLength row n expected) = Some row"

text \<open>
  The callback of \<^verbatim>\<open>line.split(',').map(...)\<close>: fields are converted from left to right
  and the first NaN throws.
\<close>

fun parseValues :: "(string \<Rightarrow> 'n) \<Rightarrow> nat \<Rightarrow> string list \<Rightarrow> error + 'n list" where
  "parseValues val row [] = Inr []"
| "parseValues val row (v # vs) =
     (case parseFloat val (trim v) of
        None \<Rightarrow> Inl (InvalidNumber (trim v) row)
      | Some parsed \<Rightarrow>
          (case parseValues val row vs of
             Inl e \<Rightarrow> Inl e
           | Inr rest \<Rightarrow> Inr (parsed # rest)))"

text \<open>
  The \<^verbatim>\<open>for\<close> loop over \<^verbatim>\<open>lines[i]\<close>, \<open>i\<close> from 1: \<open>ls\<close> is what is left of
  \<^verbatim>\<open>lines\<close> from index \<open>i\<close> on, \<open>n\<close> is \<^verbatim>\<open>players.length\<close>. The result is the
  \<^verbatim>\<open>results\<close> array pushed from \<open>i\<close> on.
\<close>

fun parseRows :: "(string \<Rightarrow> 'n) \<Rightarrow> nat \<Rightarrow> nat \<Rightarrow> string list \<Rightarrow> error + 'n list list" where
  "parseRows val n i [] = Inr []"
| "parseRows val n i (l # ls) =
     (let line = trim l in
      if line = [] then parseRows val n (i + 1) ls
      else
        (case parseValues val (i + 1) (split comma line) of
           Inl e \<Rightarrow> Inl e
         | Inr values \<Rightarrow>
             if length values \<noteq> n then Inl (RowLength (i + 1) (length values) n)
             else
               (case parseRows val n (i + 1) ls of
                  Inl e \<Rightarrow> Inl e
                | Inr rows \<Rightarrow> Inr (values # rows))))"

definition nonBlankLines :: "string \<Rightarrow> string list" where
  "nonBlankLines content = filter (\<lambda>line. trim line \<noteq> []) (split newline (trim content))"

definition parseCsvContent :: "(string \<Rightarrow> 'n) \<Rightarrow> string \<Rightarrow> error + (string list \<times> 'n list list)" where
  "parseCsvContent val content =
     (let lines = nonBlankLines content in
      if length lines < 2 then Inl MissingRows
      else
        (let players = map trim (split comma (hd lines)) in
         case parseRows val (length players) 1 (tl lines) of
           Inl e \<Rightarrow> Inl e
         | Inr results \<Rightarrow> Inr (players, results)))"

section \<open>Sessions\<close>

text \<open>
  An object used as a dictionary is the list of its entries in enumeration order, with
  pairwise distinct keys: \<^verbatim>\<open>obj[k] = v\<close> is \<open>AList.update k v obj\<close> (a new key goes to the
  end, an old key keeps its place), \<^verbatim>\<open>obj[k]\<close> is \<open>map_of obj k\<close> with \<open>None\<close> for
  \<^verbatim>\<open>undefined\<close>, and \<^verbatim>\<open>Object.entries\<close>, \<^verbatim>\<open>Object.keys\<close> and \<^verbatim>\<open>Object.values\<close> are the
  list, its keys and its values. The \<^verbatim>\<open>results\<close> of a session, which the functions receive,
  have the type of the lists with distinct keys, \<open>alist\<close>, with \<open>DAList.update\<close> for
  the assignment; the objects the functions build themselves are plain lists, built with
  \<open>AList.update\<close> from the empty list.

  Player names are taken to be ordinary keys: names that objects treat specially (array
  indices such as \<^verbatim>\<open>"7"\<close>, which are enumerated first, the members of
  \<^verbatim>\<open>Object.prototype\<close>, and the three fixed keys of a chart point) are outside the model.
  Numbers are whole numbers in the range where the arithmetic of doubles is exact, that is
  \<open>int\<close>: the rounding of sums of other doubles is outside the model. NaN, where the
  code can produce it, is \<open>None\<close>.
\<close>

record SessionData =
  sessionName :: string
  date :: string
  players :: "string list"
  results :: "(string, int list) alist"


text \<open>The object with the given entries, assigned in order to the empty object.\<close>

definition fromEntries :: "(string \<times> 'v) list \<Rightarrow> (string, 'v) alist" where
  "fromEntries kvs = foldl (\<lambda>obj (k, v). DAList.update k v obj) DAList.empty kvs"


text \<open>
  A chart point: the keys \<^verbatim>\<open>date\<close>, \<^verbatim>\<open>sessionName\<close> and \<^verbatim>\<open>round\<close>, and under \<open>byPlayer\<close> the
  entries that \<^verbatim>\<open>...runningTotals\<close> copies into it.
\<close>

record ChartDataPoint =
  pointDate :: string
  pointSessionName :: string
  round :: nat
  byPlayer :: "(string \<times> int option) list"

section \<open>loadAllSessions: from the parsed table to the session\<close>

text \<open>
  The body of the loop for one file whose text has been fetched and parsed:
  \<^verbatim>\<open>players.forEach((player, playerIndex) => ...)\<close> stores under each name the column at its
  index. The parser only returns rows as long as the header, so \<^verbatim>\<open>round[playerIndex]\<close> is in
  range (\<open>parseCsvContent_rectangular\<close> below).
\<close>

definition column :: "nat \<Rightarrow> 'n list list \<Rightarrow> 'n list" where
  "column playerIndex rows = map (\<lambda>round. round ! playerIndex) rows"

definition transposeResults :: "string list \<Rightarrow> 'n list list \<Rightarrow> (string, 'n list) alist" where
  "transposeResults ps rows =
     foldl (\<lambda>obj (player, playerIndex). DAList.update player (column playerIndex rows) obj)
       DAList.empty (zip ps [0..<length ps])"

definition sessionData :: "string \<Rightarrow> string list \<times> int list list \<Rightarrow> SessionData" where
  "sessionData sessionId table =
     \<lparr>sessionName = sessionId, date = sessionId, players = fst table,
      results = transposeResults (fst table) (snd table)\<rparr>"

text \<open>A file that does not parse is logged and skipped: it yields no session.\<close>

definition loadSession :: "(string \<Rightarrow> int) \<Rightarrow> string \<Rightarrow> string \<Rightarrow> error + SessionData" where
  "loadSession val sessionId content =
     (case parseCsvContent val content of
        Inl e \<Rightarrow> Inl e
      | Inr table \<Rightarrow> Inr (sessionData sessionId table))"

section \<open>calculatePlayerTotals\<close>







section \<open>generateChartData\<close>





fun plus :: "int option \<Rightarrow> int option \<Rightarrow> int option" where
  "plus (Some a) (Some b) = Some (a + b)"
| "plus _ _ = None"









section \<open>Vocabulary of the specification: the parser\<close>

text \<open>
  The table of a text, read from the text as it was passed in: its lines, without the
  blank ones, each as the list of its comma-separated fields, trimmed. Row 0 is the header.
\<close>

definition fields :: "string \<Rightarrow> string list" where
  "fields line = map trim (split comma line)"

definition isBlank :: "string \<Rightarrow> bool" where
  "isBlank line \<longleftrightarrow> trim line = []"

definition rowsOf :: "string list \<Rightarrow> string list list" where
  "rowsOf ls = map fields (filter (\<lambda>line. \<not> isBlank line) ls)"

definition fieldsOfLines :: "string \<Rightarrow> string list list" where
  "fieldsOfLines content = rowsOf (split newline content)"

text \<open>
  A data row is bad for a header of \<open>n\<close> fields when it has another number of fields or
  a field that does not parse as a number.
\<close>

definition badRow :: "nat \<Rightarrow> string list \<Rightarrow> bool" where
  "badRow n row \<longleftrightarrow> length row \<noteq> n \<or> (\<exists>field\<in>set row. parsesToNaN field)"

text \<open>The row index in the message of the error thrown, if one is thrown for a row.\<close>

definition namedRow :: "(string \<Rightarrow> 'n) \<Rightarrow> string \<Rightarrow> nat option" where
  "namedRow val content =
     (case parseCsvContent val content of Inl e \<Rightarrow> errorRow e | Inr t \<Rightarrow> None)"

text \<open>
  \<open>k\<close> is the 1-based number, in the original sequence of lines, of a line that the parser
  rejects.
\<close>

definition namesOriginalLine :: "string \<Rightarrow> nat \<Rightarrow> bool" where
  "namesOriginalLine content k \<longleftrightarrow>
     1 \<le> k \<and> k \<le> length (split newline content) \<and>
     \<not> isBlank (split newline content ! (k - 1)) \<and>
     badRow (length (hd (fieldsOfLines content))) (fields (split newline content ! (k - 1)))"

section \<open>Vocabulary of the specification: sessions, totals and chart\<close>















section \<open>The loops of generateChartData, with the chart as result\<close>












section \<open>Scenarios\<close>

text \<open>
  Scenario A of the specification as text and as session, the same rounds played again the
  next day, a session with a new player, a session with a tie, and a header that names one
  player twice.
\<close>

definition scenarioText :: string where
  "scenarioText = ''Alice,Bob'' @ [newline] @ ''10,-10'' @ [newline] @ ''-5,5'' @ [newline]"

definition scenarioA :: SessionData where
  "scenarioA = \<lparr>sessionName = ''2025-01-01'', date = ''2025-01-01'', players = [''Alice'', ''Bob''],
     results = fromEntries [(''Alice'', [10, - 5]), (''Bob'', [- 10, 5])]\<rparr>"





section \<open>The parser: trimming and splitting\<close>

lemma split_nonempty [simp]: "split sep s \<noteq> []"
  by (induction s) (auto split: list.splits)

lemma split_Cons_other:
  "c \<noteq> sep \<Longrightarrow> split sep (c # cs) = (c # hd (split sep cs)) # tl (split sep cs)"
  by (cases "split sep cs") auto

lemma split_snoc_sep: "split sep (cs @ [sep]) = split sep cs @ [[]]"
  by (induction cs) (auto split: list.splits)

lemma split_snoc_other:
  "c \<noteq> sep \<Longrightarrow> split sep (cs @ [c]) = butlast (split sep cs) @ [last (split sep cs) @ [c]]"
proof (induction cs)
  case Nil
  then show ?case by simp
next
  case (Cons a cs)
  then show ?case by (cases "split sep cs") (auto split: list.splits)
qed

lemma trimEnd_snoc: "trimEnd (s @ [c]) = (if isWhiteSpace c then trimEnd s else s @ [c])"
  by (simp add: trimEnd_def)

lemma trimEnd_Nil [simp]: "trimEnd [] = []"
  by (simp add: trimEnd_def)

lemma trim_Nil [simp]: "trim [] = []"
  by (simp add: trim_def trimStart_def)

lemma trim_Cons_ws: "isWhiteSpace c \<Longrightarrow> trim (c # s) = trim s"
  by (simp add: trim_def trimStart_def)

lemma dropWhile_all: "\<forall>x\<in>set s. P x \<Longrightarrow> dropWhile P s = []"
  by (induction s) auto

lemma trim_snoc_ws: "isWhiteSpace c \<Longrightarrow> trim (s @ [c]) = trim s"
proof (cases "\<forall>x\<in>set s. isWhiteSpace x")
  case True
  assume "isWhiteSpace c"
  with True show ?thesis by (simp add: trim_def trimStart_def dropWhile_all)
next
  case False
  assume ws: "isWhiteSpace c"
  from False obtain x where "x \<in> set s" "\<not> isWhiteSpace x" by blast
  then have "dropWhile isWhiteSpace (s @ [c]) = dropWhile isWhiteSpace s @ [c]"
    by (rule dropWhile_append1)
  with ws show ?thesis
    by (simp add: trim_def trimStart_def trimEnd_snoc)
qed

lemma trimEnd_eq_Nil: "trimEnd s = [] \<longleftrightarrow> (\<forall>c\<in>set s. isWhiteSpace c)"
  by (induction s rule: rev_induct) (auto simp: trimEnd_snoc)

lemma trim_eq_Nil: "trim s = [] \<longleftrightarrow> (\<forall>c\<in>set s. isWhiteSpace c)"
proof -
  have "trim s = [] \<longleftrightarrow> (\<forall>c\<in>set (dropWhile isWhiteSpace s). isWhiteSpace c)"
    by (simp add: trim_def trimStart_def trimEnd_eq_Nil)
  also have "\<dots> \<longleftrightarrow> (\<forall>c\<in>set s. isWhiteSpace c)"
    by (induction s) auto
  finally show ?thesis .
qed

lemma comma_not_ws: "\<not> isWhiteSpace comma"
  by (simp add: isWhiteSpace_def)

lemma newline_ws: "isWhiteSpace newline"
  by (simp add: isWhiteSpace_def)

lemma fields_Cons_ws: "isWhiteSpace c \<Longrightarrow> fields (c # s) = fields s"
proof -
  assume ws: "isWhiteSpace c"
  then have "c \<noteq> comma" using comma_not_ws by auto
  then show ?thesis
    using ws by (cases "split comma s") (simp_all add: fields_def split_Cons_other trim_Cons_ws)
qed

lemma fields_snoc_ws: "isWhiteSpace c \<Longrightarrow> fields (s @ [c]) = fields s"
proof -
  assume ws: "isWhiteSpace c"
  then have ne: "c \<noteq> comma" using comma_not_ws by auto
  obtain ps p where sp: "split comma s = ps @ [p]"
    by (cases "split comma s" rule: rev_cases) simp_all
  show ?thesis
    using ne ws by (simp add: fields_def split_snoc_other sp trim_snoc_ws)
qed

lemma fields_trimStart: "fields (trimStart s) = fields s"
  unfolding trimStart_def by (induction s) (simp_all add: fields_Cons_ws)

lemma fields_trimEnd: "fields (trimEnd s) = fields s"
  by (induction s rule: rev_induct) (simp_all add: trimEnd_snoc fields_snoc_ws)

lemma fields_trim: "fields (trim s) = fields s"
  by (simp add: trim_def fields_trimStart fields_trimEnd)

lemma isBlank_Cons_ws: "isWhiteSpace c \<Longrightarrow> isBlank (c # s) = isBlank s"
  by (simp add: isBlank_def trim_Cons_ws)

lemma isBlank_snoc_ws: "isWhiteSpace c \<Longrightarrow> isBlank (s @ [c]) = isBlank s"
  by (simp add: isBlank_def trim_snoc_ws)

lemma isBlank_Nil [simp]: "isBlank []"
  by (simp add: isBlank_def)

lemma table_lines_Cons_ws:
  assumes "isWhiteSpace c"
  shows "rowsOf (split newline (c # s)) = rowsOf (split newline s)"
proof (cases "c = newline")
  case True
  then show ?thesis by (simp add: rowsOf_def)
next
  case False
  then show ?thesis
    using assms
    by (cases "split newline s")
       (simp_all add: rowsOf_def split_Cons_other isBlank_Cons_ws fields_Cons_ws)
qed

lemma table_lines_snoc_ws:
  assumes "isWhiteSpace c"
  shows "rowsOf (split newline (s @ [c])) = rowsOf (split newline s)"
proof (cases "c = newline")
  case True
  then show ?thesis by (simp add: rowsOf_def split_snoc_sep)
next
  case False
  obtain ls l where sp: "split newline s = ls @ [l]"
    by (cases "split newline s" rule: rev_cases) simp_all
  show ?thesis
    using False assms
    by (simp add: split_snoc_other sp rowsOf_def isBlank_snoc_ws fields_snoc_ws)
qed

lemma table_trimStart: "rowsOf (split newline (trimStart s)) = rowsOf (split newline s)"
  unfolding trimStart_def
proof (induction s)
  case Nil
  show ?case by simp
next
  case (Cons c s)
  show ?case
  proof (cases "isWhiteSpace c")
    case True
    then have "dropWhile isWhiteSpace (c # s) = dropWhile isWhiteSpace s" by simp
    with Cons table_lines_Cons_ws [OF True, of s] show ?thesis by metis
  next
    case False
    then show ?thesis by simp
  qed
qed

lemma table_trimEnd: "rowsOf (split newline (trimEnd s)) = rowsOf (split newline s)"
proof (induction s rule: rev_induct)
  case Nil
  show ?case by simp
next
  case (snoc c s)
  show ?case
  proof (cases "isWhiteSpace c")
    case True
    then have "trimEnd (s @ [c]) = trimEnd s" by (simp add: trimEnd_snoc)
    with snoc table_lines_snoc_ws [OF True, of s] show ?thesis by metis
  next
    case False
    then show ?thesis by (simp add: trimEnd_snoc)
  qed
qed

lemma table_trim: "rowsOf (split newline (trim s)) = rowsOf (split newline s)"
  by (simp add: trim_def table_trimStart table_trimEnd)

lemma fields_nonBlankLines: "map fields (nonBlankLines content) = fieldsOfLines content"
  using table_trim [of content]
  by (simp add: nonBlankLines_def fieldsOfLines_def rowsOf_def isBlank_def)

section \<open>The parser: which texts are rejected, and at which row\<close>

lemma parseValues_good:
  "\<forall>v\<in>set vs. \<not> parsesToNaN (trim v) \<Longrightarrow>
   parseValues val row vs = Inr (map (\<lambda>v. val (trim v)) vs)"
  by (induction vs) (simp_all add: parseFloat_def)

lemma parseValues_Inr:
  "parseValues val row vs = Inr xs \<Longrightarrow> (\<forall>v\<in>set vs. \<not> parsesToNaN (trim v))"
  by (induction vs arbitrary: xs) (auto simp: parseFloat_def split: sum.splits if_splits)

lemma parseValues_Inr_iff:
  "parseValues val row vs = Inr xs \<longleftrightarrow>
     (\<forall>v\<in>set vs. \<not> parsesToNaN (trim v)) \<and> xs = map (\<lambda>v. val (trim v)) vs"
  using parseValues_good [of vs val row] parseValues_Inr [of val row vs xs] by auto

lemma parseValues_Inl_row: "parseValues val row vs = Inl e \<Longrightarrow> errorRow e = Some row"
  by (induction vs) (auto simp: parseFloat_def split: sum.splits if_splits)

lemma parseValues_Inl_iff:
  "(\<exists>e. parseValues val row vs = Inl e) \<longleftrightarrow> (\<exists>v\<in>set vs. parsesToNaN (trim v))"
proof -
  have "(\<exists>e. parseValues val row vs = Inl e) \<longleftrightarrow> \<not> (\<exists>xs. parseValues val row vs = Inr xs)"
    by (cases "parseValues val row vs") auto
  then show ?thesis by (simp add: parseValues_Inr_iff)
qed

text \<open>What one turn of the loop does with a non-blank line, by whether its row is bad.\<close>

lemma parseRows_step_good:
  assumes "\<not> isBlank l" "\<not> badRow n (fields l)"
  shows "parseRows val n i (l # ls) =
           (case parseRows val n (i + 1) ls of
              Inl e \<Rightarrow> Inl e
            | Inr rows \<Rightarrow> Inr (map val (fields l) # rows))"
proof -
  have f: "map trim (split comma (trim l)) = fields l"
    using fields_trim [of l] by (simp add: fields_def)
  have sf: "set (fields l) = trim ` set (split comma (trim l))"
    by (simp flip: f)
  have "\<forall>v\<in>set (split comma (trim l)). \<not> parsesToNaN (trim v)"
    using assms(2) sf by (simp add: badRow_def)
  then have pv: "parseValues val (i + 1) (split comma (trim l))
                 = Inr (map (\<lambda>v. val (trim v)) (split comma (trim l)))"
    by (simp add: parseValues_Inr_iff)
  have len: "length (fields l) = n"
    using assms(2) by (simp add: badRow_def)
  have "map (\<lambda>v. val (trim v)) (split comma (trim l)) = map val (fields l)"
    by (simp add: comp_def flip: f)
  with pv len assms(1) show ?thesis
    by (simp add: isBlank_def Let_def)
qed

lemma parseRows_step_bad:
  assumes "\<not> isBlank l" "badRow n (fields l)"
  shows "\<exists>e. parseRows val n i (l # ls) = Inl e \<and> errorRow e = Some (i + 1)"
proof -
  have f: "map trim (split comma (trim l)) = fields l"
    using fields_trim [of l] by (simp add: fields_def)
  show ?thesis
  proof (cases "parseValues val (i + 1) (split comma (trim l))")
    case (Inl e)
    then show ?thesis
      using assms(1) parseValues_Inl_row [OF Inl] by (simp add: isBlank_def Let_def)
  next
    case (Inr xs)
    then have ok: "\<forall>v\<in>set (split comma (trim l)). \<not> parsesToNaN (trim v)"
      and xs: "length xs = length (split comma (trim l))"
      by (simp_all add: parseValues_Inr_iff)
    have "set (fields l) = trim ` set (split comma (trim l))"
      by (simp flip: f)
    with ok have "\<forall>field\<in>set (fields l). \<not> parsesToNaN field" by simp
    with assms(2) have "length (fields l) \<noteq> n" by (auto simp: badRow_def)
    with f xs have "length xs \<noteq> n" by (metis length_map)
    with Inr assms(1) show ?thesis by (simp add: isBlank_def Let_def)
  qed
qed

lemma parseRows_good:
  assumes "\<forall>l\<in>set ls. \<not> isBlank l" "\<forall>l\<in>set ls. \<not> badRow n (fields l)"
  shows "parseRows val n i ls = Inr (map (\<lambda>l. map val (fields l)) ls)"
  using assms by (induction ls arbitrary: i) (simp_all add: parseRows_step_good del: parseRows.simps(2))

lemma parseRows_bad:
  assumes "\<forall>l\<in>set ls. \<not> isBlank l" "j < length ls" "badRow n (fields (ls ! j))"
    "\<forall>j'<j. \<not> badRow n (fields (ls ! j'))"
  shows "\<exists>e. parseRows val n i ls = Inl e \<and> errorRow e = Some (i + j + 1)"
  using assms
proof (induction ls arbitrary: i j)
  case Nil
  then show ?case by simp
next
  case (Cons l ls)
  show ?case
  proof (cases j)
    case 0
    with Cons.prems parseRows_step_bad [of l n val i ls] show ?thesis
      by (simp del: parseRows.simps)
  next
    case (Suc j0)
    from Cons.prems(4) Suc have good: "\<not> badRow n (fields l)" by force
    have "\<forall>j'<j0. \<not> badRow n (fields (ls ! j'))"
      using Cons.prems(4) Suc by force
    with Cons.prems Suc Cons.IH [of j0 "i + 1"]
    obtain e where "parseRows val n (i + 1) ls = Inl e" "errorRow e = Some (i + 1 + j0 + 1)"
      by auto
    with Cons.prems(1) good Suc show ?thesis
      by (simp add: parseRows_step_good del: parseRows.simps)
  qed
qed

text \<open>The first bad row of a list of rows, as an index.\<close>

lemma first_bad_row:
  assumes "\<exists>r\<in>set rs. P r"
  shows "\<exists>j<length rs. P (rs ! j) \<and> (\<forall>j'<j. \<not> P (rs ! j'))"
proof -
  from assms obtain k where k: "k < length rs" "P (rs ! k)"
    by (auto simp: in_set_conv_nth)
  define j where "j = (LEAST m. m < length rs \<and> P (rs ! m))"
  have "j < length rs \<and> P (rs ! j)"
    unfolding j_def by (rule LeastI [of _ k]) (use k in simp)
  moreover have "\<forall>j'<j. \<not> P (rs ! j')"
  proof (intro allI impI notI)
    fix j' assume "j' < j" "P (rs ! j')"
    moreover from \<open>j' < j\<close> \<open>j < length rs \<and> P (rs ! j)\<close> have "j' < length rs" by simp
    ultimately show False
      unfolding j_def using not_less_Least by blast
  qed
  ultimately show ?thesis by blast
qed

lemma nonBlankLines_nonblank: "\<forall>l\<in>set (nonBlankLines content). \<not> isBlank l"
  by (simp add: nonBlankLines_def isBlank_def)

text \<open>The parser in terms of the table of the text.\<close>

lemma length_nonBlankLines: "length (nonBlankLines content) = length (fieldsOfLines content)"
  using arg_cong [OF fields_nonBlankLines [of content], of length] by simp

lemma parseCsvContent_short:
  "length (fieldsOfLines content) < 2 \<Longrightarrow> parseCsvContent val content = Inl MissingRows"
  by (simp add: parseCsvContent_def length_nonBlankLines)

lemma hd_tl_table:
  assumes "2 \<le> length (nonBlankLines content)"
  shows "map trim (split comma (hd (nonBlankLines content))) = hd (fieldsOfLines content)"
    and "map fields (tl (nonBlankLines content)) = tl (fieldsOfLines content)"
proof -
  from assms obtain l ls where "nonBlankLines content = l # ls"
    by (cases "nonBlankLines content") auto
  with fields_nonBlankLines [of content, symmetric]
  show "map trim (split comma (hd (nonBlankLines content))) = hd (fieldsOfLines content)"
    and "map fields (tl (nonBlankLines content)) = tl (fieldsOfLines content)"
    by (auto simp: fields_def)
qed

lemma parseCsvContent_good:
  assumes "2 \<le> length (fieldsOfLines content)"
    and "\<forall>row\<in>set (tl (fieldsOfLines content)). \<not> badRow (length (hd (fieldsOfLines content))) row"
  shows "parseCsvContent val content =
           Inr (hd (fieldsOfLines content), map (map val) (tl (fieldsOfLines content)))"
proof -
  let ?ls = "nonBlankLines content"
  have len: "2 \<le> length ?ls"
    using assms(1) by (simp add: length_nonBlankLines)
  note ht = hd_tl_table [OF len]
  have "\<forall>l\<in>set (tl ?ls). \<not> badRow (length (hd (fieldsOfLines content))) (fields l)"
    using assms(2) ht(2) by (metis image_eqI list.set_map)
  moreover have "\<forall>l\<in>set (tl ?ls). \<not> isBlank l"
    using nonBlankLines_nonblank [of content] by (cases "nonBlankLines content") auto
  ultimately have "parseRows val (length (hd (fieldsOfLines content))) 1 (tl ?ls)
                   = Inr (map (\<lambda>l. map val (fields l)) (tl ?ls))"
    by (rule parseRows_good [rotated])
  moreover have "map (\<lambda>l. map val (fields l)) (tl ?ls) = map (map val) (tl (fieldsOfLines content))"
    by (simp add: comp_def flip: ht(2))
  ultimately show ?thesis
    using len ht(1) by (simp add: parseCsvContent_def Let_def)
qed

lemma parseCsvContent_bad:
  assumes "2 \<le> length (fieldsOfLines content)"
    and "Suc j < length (fieldsOfLines content)"
    and "badRow (length (hd (fieldsOfLines content))) (fieldsOfLines content ! Suc j)"
    and "\<forall>j'<j. \<not> badRow (length (hd (fieldsOfLines content))) (fieldsOfLines content ! Suc j')"
  shows "\<exists>e. parseCsvContent val content = Inl e \<and> errorRow e = Some (j + 2)"
proof -
  let ?ls = "nonBlankLines content"
  let ?n = "length (hd (fieldsOfLines content))"
  have len: "2 \<le> length ?ls"
    using assms(1) by (simp add: length_nonBlankLines)
  note ht = hd_tl_table [OF len]
  have tln: "length (tl ?ls) = length (tl (fieldsOfLines content))"
    using ht(2) by (metis length_map)
  have nth: "fields (tl ?ls ! k) = fieldsOfLines content ! Suc k" if "Suc k < length (fieldsOfLines content)" for k
  proof -
    have "k < length (tl ?ls)" using that tln by simp
    then have "fields (tl ?ls ! k) = map fields (tl ?ls) ! k" by simp
    also have "\<dots> = tl (fieldsOfLines content) ! k" using ht(2) by simp
    also have "\<dots> = fieldsOfLines content ! Suc k" using that by (simp add: nth_tl)
    finally show ?thesis .
  qed
  have nb: "\<forall>l\<in>set (tl ?ls). \<not> isBlank l"
    using nonBlankLines_nonblank [of content] by (cases "nonBlankLines content") auto
  have j: "j < length (tl ?ls)" using assms(2) tln by simp
  have b: "badRow ?n (fields (tl ?ls ! j))" using assms(2,3) nth by simp
  have g: "\<forall>j'<j. \<not> badRow ?n (fields (tl ?ls ! j'))"
    using assms(2,4) nth by simp
  from parseRows_bad [OF nb j b g, of val 1]
  obtain e where "parseRows val ?n 1 (tl ?ls) = Inl e" "errorRow e = Some (j + 2)" by auto
  then show ?thesis
    using len ht(1) by (simp add: parseCsvContent_def Let_def)
qed

lemma parseCsvContent_Inr:
  assumes "parseCsvContent val content = Inr t"
  shows "2 \<le> length (fieldsOfLines content)"
    and "\<forall>row\<in>set (tl (fieldsOfLines content)). \<not> badRow (length (hd (fieldsOfLines content))) row"
    and "t = (hd (fieldsOfLines content), map (map val) (tl (fieldsOfLines content)))"
proof -
  let ?T = "fieldsOfLines content"
  show len: "2 \<le> length ?T"
    using assms parseCsvContent_short [of content val] by (cases "length ?T < 2") auto
  show good: "\<forall>row\<in>set (tl ?T). \<not> badRow (length (hd ?T)) row"
  proof (rule ccontr)
    assume "\<not> ?thesis"
    then have "\<exists>row\<in>set (tl ?T). badRow (length (hd ?T)) row" by simp
    from first_bad_row [OF this] obtain j where j: "j < length (tl ?T)"
      "badRow (length (hd ?T)) (tl ?T ! j)" "\<forall>j'<j. \<not> badRow (length (hd ?T)) (tl ?T ! j')"
      by blast
    from j(1) have sj: "Suc j < length ?T" by simp
    have "badRow (length (hd ?T)) (?T ! Suc j)"
      using j(1,2) by (simp add: nth_tl)
    moreover have "\<forall>j'<j. \<not> badRow (length (hd ?T)) (?T ! Suc j')"
      using j(1,3) by (simp add: nth_tl)
    ultimately obtain e where "parseCsvContent val content = Inl e"
      using parseCsvContent_bad [OF len sj, of val] by blast
    with assms show False by simp
  qed
  show "t = (hd ?T, map (map val) (tl ?T))"
    using assms parseCsvContent_good [OF len good, of val] by simp
qed

lemma parseCsvContent_Inl_row:
  assumes "parseCsvContent val content = Inl e" "errorRow e = Some k"
  shows "\<exists>j. k = j + 2 \<and> Suc j < length (fieldsOfLines content) \<and>
           badRow (length (hd (fieldsOfLines content))) (fieldsOfLines content ! Suc j) \<and>
           (\<forall>j'<j. \<not> badRow (length (hd (fieldsOfLines content))) (fieldsOfLines content ! Suc j'))"
proof -
  let ?T = "fieldsOfLines content"
  have len: "2 \<le> length ?T"
    using assms parseCsvContent_short [of content val] by (cases "length ?T < 2") auto
  have "\<exists>row\<in>set (tl ?T). badRow (length (hd ?T)) row"
    using assms(1) parseCsvContent_good [OF len, of val] by auto
  from first_bad_row [OF this] obtain j where j: "j < length (tl ?T)"
    "badRow (length (hd ?T)) (tl ?T ! j)" "\<forall>j'<j. \<not> badRow (length (hd ?T)) (tl ?T ! j')"
    by blast
  from j(1) have sj: "Suc j < length ?T" by simp
  have b: "badRow (length (hd ?T)) (?T ! Suc j)"
    using j(1,2) by (simp add: nth_tl)
  have g: "\<forall>j'<j. \<not> badRow (length (hd ?T)) (?T ! Suc j')"
    using j(1,3) by (simp add: nth_tl)
  from parseCsvContent_bad [OF len sj b g, of val] assms have "k = j + 2" by auto
  with sj b g show ?thesis by blast
qed


lemma filter_nth_original:
  "j < length (filter P xs) \<Longrightarrow>
   \<exists>m<length xs. P (xs ! m) \<and> filter P xs ! j = xs ! m \<and> length (filter P (take (Suc m) xs)) = Suc j"
proof (induction xs arbitrary: j)
  case Nil
  then show ?case by simp
next
  case (Cons x xs)
  show ?case
  proof (cases "P x")
    case True
    show ?thesis
    proof (cases j)
      case 0
      with True show ?thesis by (intro exI [of _ 0]) simp
    next
      case (Suc j0)
      with Cons.prems True have "j0 < length (filter P xs)" by simp
      from Cons.IH [OF this] obtain m where "m < length xs" "P (xs ! m)"
        "filter P xs ! j0 = xs ! m" "length (filter P (take (Suc m) xs)) = Suc j0" by blast
      with True Suc show ?thesis by (intro exI [of _ "Suc m"]) simp
    qed
  next
    case False
    with Cons.prems have "j < length (filter P xs)" by simp
    from Cons.IH [OF this] obtain m where "m < length xs" "P (xs ! m)"
      "filter P xs ! j = xs ! m" "length (filter P (take (Suc m) xs)) = Suc j" by blast
    with False show ?thesis by (intro exI [of _ "Suc m"]) simp
  qed
qed

text \<open>
  Claim C3. For every input text, \<open>parseCsvContent\<close> throws exactly when the text has fewer
  than two non-blank lines, or a data line whose number of comma-separated fields differs
  from the header's, or a data field that, trimmed, does not parse as a number; otherwise it
  returns the table, which is the header's names and the values of the data rows. The empty
  field does not parse as a number. The text of scenario C is rejected with the message that
  names row 2. Lines, fields and blankness are those of the text as it was passed in.
\<close>

theorem parseCsvContent_throws_iff:
  "((\<exists>e. parseCsvContent val content = Inl e) \<longleftrightarrow>
      length (fieldsOfLines content) < 2 \<or>
      (\<exists>row\<in>set (tl (fieldsOfLines content)). length row \<noteq> length (hd (fieldsOfLines content))) \<or>
      (\<exists>row\<in>set (tl (fieldsOfLines content)). \<exists>field\<in>set row. parsesToNaN field)) \<and>
   ((\<nexists>e. parseCsvContent val content = Inl e) \<longrightarrow>
      parseCsvContent val content =
        Inr (hd (fieldsOfLines content), map (map val) (tl (fieldsOfLines content)))) \<and>
   parsesToNaN (trim []) \<and>
   parseCsvContent val (''Alice,Bob'' @ [newline] @ ''10'' @ [newline]) = Inl (RowLength 2 1 2) \<and>
   message (RowLength 2 1 2) = ''Row 2 has 1 values but expected 2''"
proof (intro conjI)
  let ?T = "fieldsOfLines content"
  show "(\<exists>e. parseCsvContent val content = Inl e) \<longleftrightarrow>
      length ?T < 2 \<or>
      (\<exists>row\<in>set (tl ?T). length row \<noteq> length (hd ?T)) \<or>
      (\<exists>row\<in>set (tl ?T). \<exists>field\<in>set row. parsesToNaN field)"
  proof (cases "parseCsvContent val content")
    case (Inl e)
    have "length ?T < 2 \<or> (\<exists>row\<in>set (tl ?T). badRow (length (hd ?T)) row)"
      using Inl parseCsvContent_good [of content val] by fastforce
    then show ?thesis using Inl by (auto simp: badRow_def)
  next
    case (Inr t)
    from parseCsvContent_Inr [OF Inr] Inr show ?thesis by (auto simp: badRow_def)
  qed
  show "(\<nexists>e. parseCsvContent val content = Inl e) \<longrightarrow>
      parseCsvContent val content = Inr (hd ?T, map (map val) (tl ?T))"
  proof (cases "parseCsvContent val content")
    case (Inl e)
    then show ?thesis by simp
  next
    case (Inr t)
    from parseCsvContent_Inr(3) [OF Inr] Inr show ?thesis by simp
  qed
  show "parsesToNaN (trim [])"
    by (simp add: parsesToNaN_def trimStart_def)
  show "parseCsvContent val (''Alice,Bob'' @ [newline] @ ''10'' @ [newline]) = Inl (RowLength 2 1 2)"
    by (simp add: parseCsvContent_def nonBlankLines_def trim_def trimStart_def trimEnd_def
        isWhiteSpace_def parseFloat_def parsesToNaN_def isDigit_def)
  show "message (RowLength 2 1 2) = ''Row 2 has 1 values but expected 2''"
    by (simp add: decimal.simps)
qed

text \<open>A text with a field that is not a number is rejected.\<close>

theorem parseCsvContent_throws_iff_witness:
  "\<exists>e. parseCsvContent wholeNumber (''Alice,Bob'' @ [newline] @ ''10,x'' @ [newline]) = Inl e"
  using parseCsvContent_throws_iff [of wholeNumber "''Alice,Bob'' @ [newline] @ ''10,x'' @ [newline]"]
  by (simp add: fieldsOfLines_def rowsOf_def fields_def isBlank_def trim_def trimStart_def trimEnd_def
      isWhiteSpace_def parsesToNaN_def isDigit_def)

text \<open>
  Claim C4 as stated fails: in the text below the blank line 2 precedes the line \<^verbatim>\<open>1\<close>,
  which is line 3 and has one field for a header of two. The message names row 2; line 2 of
  the original text is not a rejected line, line 3 is.
\<close>

theorem row_is_not_original_line_number:
  "namedRow wholeNumber (''A,B'' @ [newline, newline] @ ''1'' @ [newline]) = Some 2 \<and>
   \<not> namesOriginalLine (''A,B'' @ [newline, newline] @ ''1'' @ [newline]) 2 \<and>
   namesOriginalLine (''A,B'' @ [newline, newline] @ ''1'' @ [newline]) 3"
  by (simp add: namedRow_def namesOriginalLine_def parseCsvContent_def nonBlankLines_def
      trim_def trimStart_def trimEnd_def isWhiteSpace_def parseFloat_def parsesToNaN_def
      isDigit_def isBlank_def fieldsOfLines_def rowsOf_def fields_def badRow_def)

text \<open>
  Claim C4, amended. When \<open>parseCsvContent\<close> throws an error for a row, the row index
  \<open>k\<close> in the message is the 1-based position, among the non-blank lines of the text,
  of the first data line that has a wrong number of fields or a field that is not a number:
  that line is some line \<open>m + 1\<close> of the original text, and \<open>k\<close> counts the non-blank
  lines up to and including it, which is \<open>m + 1\<close> itself when no line before it is
  blank.
\<close>

theorem parseCsvContent_row_number:
  assumes "namedRow val content = Some k"
  shows "2 \<le> k \<and> k \<le> length (fieldsOfLines content) \<and>
         badRow (length (hd (fieldsOfLines content))) (fieldsOfLines content ! (k - 1)) \<and>
         (\<forall>j. 1 \<le> j \<and> j < k - 1 \<longrightarrow>
            \<not> badRow (length (hd (fieldsOfLines content))) (fieldsOfLines content ! j)) \<and>
         (\<exists>m<length (split newline content).
            \<not> isBlank (split newline content ! m) \<and>
            fieldsOfLines content ! (k - 1) = fields (split newline content ! m) \<and>
            k = length (filter (\<lambda>line. \<not> isBlank line) (take (Suc m) (split newline content))) \<and>
            ((\<forall>j\<le>m. \<not> isBlank (split newline content ! j)) \<longrightarrow> k = Suc m))"
proof -
  let ?T = "fieldsOfLines content"
  from assms obtain e where e: "parseCsvContent val content = Inl e" "errorRow e = Some k"
    by (auto simp: namedRow_def split: sum.splits)
  from parseCsvContent_Inl_row [OF e] obtain j where j: "k = j + 2" "Suc j < length ?T"
    "badRow (length (hd ?T)) (?T ! Suc j)" "\<forall>j'<j. \<not> badRow (length (hd ?T)) (?T ! Suc j')"
    by blast
  have first: "\<forall>i. 1 \<le> i \<and> i < k - 1 \<longrightarrow> \<not> badRow (length (hd ?T)) (?T ! i)"
  proof (intro allI impI)
    fix i assume i: "1 \<le> i \<and> i < k - 1"
    then obtain i0 where "i = Suc i0" by (cases i) auto
    with i j(1,4) show "\<not> badRow (length (hd ?T)) (?T ! i)" by simp
  qed
  let ?P = "\<lambda>line. \<not> isBlank line"
  have "Suc j < length (filter ?P (split newline content))"
    using j(2) by (simp add: fieldsOfLines_def rowsOf_def)
  from filter_nth_original [OF this] obtain m where m: "m < length (split newline content)"
    "?P (split newline content ! m)"
    "filter ?P (split newline content) ! Suc j = split newline content ! m"
    "length (filter ?P (take (Suc m) (split newline content))) = Suc (Suc j)"
    by blast
  have row: "?T ! Suc j = fields (split newline content ! m)"
    using m(3) \<open>Suc j < length (filter ?P (split newline content))\<close>
    by (simp add: fieldsOfLines_def rowsOf_def)
  have same: "k = Suc m" if nb: "\<forall>j\<le>m. \<not> isBlank (split newline content ! j)"
  proof -
    have "\<forall>line\<in>set (take (Suc m) (split newline content)). ?P line"
    proof
      fix line assume "line \<in> set (take (Suc m) (split newline content))"
      then obtain i where "i < Suc m" "line = split newline content ! i"
        using m(1) by (auto simp: in_set_conv_nth)
      with nb show "?P line" by simp
    qed
    then have "filter ?P (take (Suc m) (split newline content)) = take (Suc m) (split newline content)"
      by (simp only: filter_True)
    with m(1,4) j(1) show ?thesis by simp
  qed
  from m j first row same show ?thesis by auto
qed

text \<open>A text with a blank line before a good row and a short one: row 3 is line 4.\<close>

theorem parseCsvContent_row_number_witness:
  "namedRow wholeNumber (''A,B'' @ [newline, newline] @ ''1,2'' @ [newline] @ ''1'') = Some 3 \<and>
   fieldsOfLines (''A,B'' @ [newline, newline] @ ''1,2'' @ [newline] @ ''1'') ! (3 - 1) = [''1'']"
proof -
  have h: "namedRow wholeNumber (''A,B'' @ [newline, newline] @ ''1,2'' @ [newline] @ ''1'') = Some 3"
    by (simp add: namedRow_def parseCsvContent_def nonBlankLines_def
      trim_def trimStart_def trimEnd_def isWhiteSpace_def parseFloat_def parsesToNaN_def
      isDigit_def)
  have "fieldsOfLines (''A,B'' @ [newline, newline] @ ''1,2'' @ [newline] @ ''1'') ! (3 - 1) = [''1'']"
    by (simp add: fieldsOfLines_def rowsOf_def fields_def isBlank_def trim_def trimStart_def trimEnd_def
      isWhiteSpace_def)
  with h parseCsvContent_row_number [OF h] show ?thesis by simp
qed

section \<open>The chart: structure, keys and values\<close>


























section \<open>The chart: the running total of a player\<close>




lemma impl_of_foldl_update:
  "DAList.impl_of (foldl (\<lambda>obj (k, v). DAList.update k v obj) acc kvs)
   = foldl (\<lambda>al (k, v). AList.update k v al) (DAList.impl_of acc) kvs"
  by (induction kvs arbitrary: acc) (simp_all add: DAList.update.rep_eq split_beta)

















text \<open>Sorting.\<close>

section \<open>The totals: sorting, keys and records\<close>

































section \<open>The chart and the totals: the properties claimed\<close>









section \<open>The zero-sum invariant\<close>

lemma foldl_plus_None: "foldl plus None vs = None"
  by (induction vs) simp_all



















section \<open>From the table to the session\<close>












text \<open>Scenario A of the specification, from the text to the session.\<close>

lemma loadSession_scenarioA: "loadSession wholeNumber ''2025-01-01'' scenarioText = Inr scenarioA"
proof -
  have p: "parseCsvContent wholeNumber scenarioText = Inr ([''Alice'', ''Bob''], [[10, - 10], [- 5, 5]])"
    by (simp add: scenarioText_def parseCsvContent_def nonBlankLines_def trim_def trimStart_def
        trimEnd_def isWhiteSpace_def parseFloat_def parsesToNaN_def isDigit_def wholeNumber_def
        digitValue_def)
  have "DAList.impl_of (transposeResults [''Alice'', ''Bob''] [[10, - 10], [- 5, 5 :: int]])
        = DAList.impl_of (fromEntries [(''Alice'', [10, - 5]), (''Bob'', [- 10, 5])])"
    by (simp add: transposeResults_def fromEntries_def impl_of_foldl_update DAList.empty.rep_eq
        column_def upt_rec)
  then have "transposeResults [''Alice'', ''Bob''] [[10, - 10], [- 5, 5 :: int]]
             = fromEntries [(''Alice'', [10, - 5]), (''Bob'', [- 10, 5])]"
    by (simp only: alist_eq_iff)
  with p show ?thesis by (simp add: loadSession_def sessionData_def scenarioA_def)
qed





end
